theory Spec2Isabelle
  imports Complex_Main
begin

section \<open>Numeric and memory model\<close>

text \<open>
  The two Max externals \<^verbatim>\<open>qte.quantumho\<close> (the Hamiltonian builder) and
  \<^verbatim>\<open>qte.eigencalc\<close> (the Hermitian eigensolver) are embedded function by function.
  A C \<^verbatim>\<open>double\<close> is read as an exact \<^typ>\<open>real\<close> and a \<^verbatim>\<open>double complex\<close> (or
  \<^verbatim>\<open>__CLPK_doublecomplex\<close>) as an exact \<^typ>\<open>complex\<close>: the development verifies the
  algorithm, not the IEEE rounding of each operation. A \<^verbatim>\<open>long\<close> is an \<^typ>\<open>int\<close>; the
  dimension is taken small enough that no product of the source overflows. A loop
  \<^verbatim>\<open>for (long i = 0; i < n; i++)\<close> runs over \<^term>\<open>[0..<nat n]\<close>, which is empty for
  \<^term>\<open>n \<le> (0::int)\<close> as in C.
\<close>

type_synonym cmatrix = "complex list list"

text \<open>
  Whether an allocation succeeds is decided by the environment. Each request of the
  builder has its own flag; \<open>fresh_atoms\<close> is the content of the output buffer as
  \<^verbatim>\<open>sysmem_newptr\<close> hands it out (not initialised).
\<close>

record mem =
  mem_H :: bool
  mem_F :: bool
  mem_Finv :: bool
  mem_P_temp :: bool
  mem_P :: bool
  mem_P2 :: bool
  mem_PImpulse :: bool
  mem_Q_diag :: bool
  mem_out_list :: bool
  fresh_atoms :: "nat \<Rightarrow> real"

datatype failure = OutOfMemory | NullWrite

text \<open>
  What an object does to the outside, in the order in which it happens: an
  \<^verbatim>\<open>object_error\<close> or \<^verbatim>\<open>object_post\<close> (the format string and its integer arguments), a list
  sent to an outlet (outlets are numbered from the left, starting at 0), or a write
  through a null or dangling pointer, after which nothing is known.
\<close>

datatype event =
    Error string "int list"
  | Post string "int list"
  | Outlet_list nat "real list"
  | Crash

datatype atom = A_LONG int | A_FLOAT real | A_SYM string

text \<open>
  A cast of a double to an integer type (\<^verbatim>\<open>(long)\<close> in the constructor of the builder,
  \<^verbatim>\<open>(__CLPK_integer)\<close> on the workspace size) truncates toward zero.
\<close>

definition trunc_long :: "real \<Rightarrow> int" where
  "trunc_long r = (if 0 \<le> r then \<lfloor>r\<rfloor> else \<lceil>r\<rceil>)"

fun atom_getlong :: "atom \<Rightarrow> int" where
  "atom_getlong (A_LONG k) = k"
| "atom_getlong (A_FLOAT r) = trunc_long r"
| "atom_getlong (A_SYM s) = 0"

fun atom_getfloat :: "atom \<Rightarrow> real" where
  "atom_getfloat (A_LONG k) = real_of_int k"
| "atom_getfloat (A_FLOAT r) = r"
| "atom_getfloat (A_SYM s) = 0"

section \<open>qte.quantumho: the Hamiltonian builder\<close>

record t_qte_quantumho =
  qho_n :: int
  qho_a :: real

text \<open>
  \<^verbatim>\<open>alloc_complex_matrix\<close>: \<^verbatim>\<open>NULL\<close> when the request fails, else an \<open>n \<times> n\<close> matrix of
  zeros (the rows come from \<^verbatim>\<open>calloc\<close>).
\<close>

definition alloc_complex_matrix :: "bool \<Rightarrow> int \<Rightarrow> cmatrix option" where
  "alloc_complex_matrix ok n =
     (if ok then Some (replicate (nat n) (replicate (nat n) 0)) else None)"

text \<open>
  Each helper below writes every cell \<open>[i][j]\<close> of its destination exactly once, rows
  outermost; the model returns the destination's new contents.
\<close>

definition compute_fourier_matrix :: "int \<Rightarrow> cmatrix" where
  "compute_fourier_matrix n =
     (let norm = 1 / sqrt (real_of_int n) in
      map (\<lambda>k. map (\<lambda>l.
             let angle = 2 * pi * real k * real l / real_of_int n
             in complex_of_real norm
                  * (complex_of_real (cos angle) + \<i> * complex_of_real (sin angle)))
           [0..<nat n])
        [0..<nat n])"

definition compute_conjugate_transpose :: "cmatrix \<Rightarrow> int \<Rightarrow> cmatrix" where
  "compute_conjugate_transpose F n =
     map (\<lambda>i. map (\<lambda>j. cnj (F ! j ! i)) [0..<nat n]) [0..<nat n]"

definition multiply_diag_matrix :: "real list \<Rightarrow> cmatrix \<Rightarrow> int \<Rightarrow> cmatrix" where
  "multiply_diag_matrix D M n =
     map (\<lambda>i. map (\<lambda>j. complex_of_real (D ! i) * (M ! i ! j)) [0..<nat n]) [0..<nat n]"

definition multiply_complex_matrices :: "cmatrix \<Rightarrow> cmatrix \<Rightarrow> int \<Rightarrow> cmatrix" where
  "multiply_complex_matrices A B n =
     map (\<lambda>i. map (\<lambda>j.
            foldl (\<lambda>sum k. sum + (A ! i ! k) * (B ! k ! j)) 0 [0..<nat n])
          [0..<nat n])
       [0..<nat n]"

text \<open>
  \<^verbatim>\<open>round\<close> of \<^verbatim>\<open>math.h\<close> rounds to the nearest integer, halfway cases away from zero
  (HOL's \<^const>\<open>round\<close> sends halfway cases upwards, which is another function).
\<close>

definition round_c :: "real \<Rightarrow> real" where
  "round_c x = (if 0 \<le> x then of_int \<lfloor>x + 1 / 2\<rfloor> else of_int \<lceil>x - 1 / 2\<rceil>)"

definition round5 :: "real \<Rightarrow> real" where
  "round5 x = round_c (x * 100000) / 100000"

text \<open>
  The three stages of \<^verbatim>\<open>compute_hamiltonian\<close>, named so that claims can speak about the
  intermediate values: the momentum operator \<open>P\<close> (source lines 144 to 169), the
  diagonal \<open>Q_diag\<close> (lines 174 to 178) and the entry \<open>H[i][j]\<close> (lines 183 to 197).
\<close>

definition hamiltonian_PImpulse :: "int \<Rightarrow> real list" where
  "hamiltonian_PImpulse n = map (\<lambda>i. real i) [0..<nat n]"

definition hamiltonian_P :: "int \<Rightarrow> cmatrix" where
  "hamiltonian_P n =
     (let F = compute_fourier_matrix n;
          Finv = compute_conjugate_transpose F n;
          PImpulse = hamiltonian_PImpulse n;
          P_temp = multiply_diag_matrix PImpulse Finv n
      in multiply_complex_matrices F P_temp n)"

definition hamiltonian_Q_diag :: "int \<Rightarrow> real \<Rightarrow> real list" where
  "hamiltonian_Q_diag n a =
     map (\<lambda>i. a * (- (real_of_int (n - 1) / 2) + real i)) [0..<nat n]"

definition hamiltonian_val :: "cmatrix \<Rightarrow> real list \<Rightarrow> nat \<Rightarrow> nat \<Rightarrow> complex" where
  "hamiltonian_val P2 Q_diag i j =
     (let qterm = (if i = j
                   then (let q2 = Q_diag ! i * Q_diag ! i
                         in complex_of_real q2 + complex_of_real 0 * \<i>)
                   else 0)
      in complex_of_real (1 / 2) * (P2 ! i ! j + qterm))"

definition hamiltonian_entry :: "cmatrix \<Rightarrow> real list \<Rightarrow> nat \<Rightarrow> nat \<Rightarrow> complex" where
  "hamiltonian_entry P2 Q_diag i j =
     (let val = hamiltonian_val P2 Q_diag i j;
          rpart = round5 (Re val);
          ipart = round5 (Im val)
      in complex_of_real rpart + \<i> * complex_of_real ipart)"

text \<open>
  \<^verbatim>\<open>compute_hamiltonian\<close>. The six matrices are tested together, \<open>PImpulse\<close> on its
  own; \<open>Q_diag\<close> is written without a test, so a failed request is a write through
  \<^verbatim>\<open>NULL\<close> as soon as the loop runs once.
\<close>

definition compute_hamiltonian :: "mem \<Rightarrow> t_qte_quantumho \<Rightarrow> failure + cmatrix" where
  "compute_hamiltonian m x =
     (let n = qho_n x; a = qho_a x in
      if alloc_complex_matrix (mem_H m) n = None \<or> alloc_complex_matrix (mem_F m) n = None
         \<or> alloc_complex_matrix (mem_Finv m) n = None
         \<or> alloc_complex_matrix (mem_P_temp m) n = None
         \<or> alloc_complex_matrix (mem_P m) n = None \<or> alloc_complex_matrix (mem_P2 m) n = None
      then Inl OutOfMemory
      else if \<not> mem_PImpulse m then Inl OutOfMemory
      else
        let P = hamiltonian_P n;
            P2 = multiply_complex_matrices P P n
        in if \<not> mem_Q_diag m \<and> 0 < n then Inl NullWrite
           else
             let Q_diag = hamiltonian_Q_diag n a
             in Inr (map (\<lambda>i. map (\<lambda>j. hamiltonian_entry P2 Q_diag i j) [0..<nat n])
                       [0..<nat n]))"


text \<open>
  Both externals end with the same loop nest, which writes a complex matrix into a buffer
  of atoms as (real, imaginary) pairs: for the outer index \<open>o\<close> and the inner index \<open>k\<close>,
  \<^verbatim>\<open>idx = 2 * (o * n + k)\<close>, then cells \<open>idx\<close> and \<open>idx + 1\<close> are assigned. \<open>cell o k\<close> is
  the matrix entry the loop body reads. An assignment outside the buffer is not modelled
  (\<open>list_update\<close> leaves the list alone there); the buffers of the source are large enough.
\<close>

definition flatten_step ::
  "(nat \<Rightarrow> nat \<Rightarrow> complex) \<Rightarrow> nat \<Rightarrow> nat \<Rightarrow> real list \<Rightarrow> nat \<Rightarrow> real list" where
  "flatten_step cell n o_idx buf k =
     (let idx = 2 * (o_idx * n + k)
      in (buf[idx := Re (cell o_idx k)])[idx + 1 := Im (cell o_idx k)])"

definition flatten_loop :: "(nat \<Rightarrow> nat \<Rightarrow> complex) \<Rightarrow> int \<Rightarrow> real list \<Rightarrow> real list" where
  "flatten_loop cell n buf =
     foldl (\<lambda>b o_idx. foldl (flatten_step cell (nat n) o_idx) b [0..<nat n]) buf [0..<nat n]"

text \<open>
  In \<^verbatim>\<open>qte_quantumho_bang\<close> the outer index is the row \<open>i\<close>, the inner one the column
  \<open>j\<close>, and the body reads \<^verbatim>\<open>H[i][j]\<close>.
\<close>

definition flatten_matrix :: "cmatrix \<Rightarrow> int \<Rightarrow> real list \<Rightarrow> real list" where
  "flatten_matrix H n out_list = flatten_loop (\<lambda>i j. H ! i ! j) n out_list"

definition sysmem_newptr :: "mem \<Rightarrow> int \<Rightarrow> real list option" where
  "sysmem_newptr m sz =
     (if mem_out_list m then Some (map (fresh_atoms m) [0..<nat sz]) else None)"

definition qte_quantumho_bang :: "mem \<Rightarrow> t_qte_quantumho \<Rightarrow> event list" where
  "qte_quantumho_bang m x =
     (let n = qho_n x in
      case compute_hamiltonian m x of
        Inl NullWrite \<Rightarrow> [Crash]
      | Inl OutOfMemory \<Rightarrow> [Error ''Failed to compute Hamiltonian (out of memory?)'' []]
      | Inr H \<Rightarrow>
          (let list_size = 2 * n * n in
           case sysmem_newptr m list_size of
             None \<Rightarrow> [Error ''Failed to allocate memory for output list'' []]
           | Some out_list \<Rightarrow>
               [Outlet_list 0 (take (nat list_size) (flatten_matrix H n out_list))]))"

text \<open>An environment in which every request of the builder is granted.\<close>

definition mem_ok :: "mem \<Rightarrow> bool" where
  "mem_ok m = (mem_H m \<and> mem_F m \<and> mem_Finv m \<and> mem_P_temp m \<and> mem_P m \<and> mem_P2 m
               \<and> mem_PImpulse m \<and> mem_Q_diag m \<and> mem_out_list m)"

definition plenty :: mem where
  "plenty = \<lparr>mem_H = True, mem_F = True, mem_Finv = True, mem_P_temp = True,
             mem_P = True, mem_P2 = True, mem_PImpulse = True, mem_Q_diag = True,
             mem_out_list = True, fresh_atoms = (\<lambda>k. 0)\<rparr>"

section \<open>simplemax: the earlier prototype of the builder\<close>

text \<open>
  \<^verbatim>\<open>source/simplemax.c\<close> is an earlier version of the builder, registered as a separate
  object \<^verbatim>\<open>simplemax\<close>. Its \<^verbatim>\<open>compute_harmonic_oscillator\<close> builds the momentum operator
  as \<^verbatim>\<open>Finv * (diag(PImpulse) * F)\<close> and the position diagonal as
  \<^verbatim>\<open>-((n-1)*a/2.0) + i\<close>. Both are embedded to compare them with \<^verbatim>\<open>qte.quantumho\<close>,
  whose header comment announces "the new order" and "multiply entire expression by a".
  The prototype tests no allocation; the model covers the runs in which all succeed.
\<close>

definition simplemax_P :: "int \<Rightarrow> cmatrix" where
  "simplemax_P n =
     (let F = compute_fourier_matrix n;
          Finv = map (\<lambda>i. map (\<lambda>j. cnj (F ! j ! i)) [0..<nat n]) [0..<nat n];
          PImpulse = map (\<lambda>i. real i) [0..<nat n];
          P_temp = map (\<lambda>i. map (\<lambda>j. complex_of_real (PImpulse ! i) * (F ! i ! j)) [0..<nat n])
                     [0..<nat n]
      in map (\<lambda>i. map (\<lambda>j.
                foldl (\<lambda>acc k. acc + (Finv ! i ! k) * (P_temp ! k ! j)) 0 [0..<nat n])
              [0..<nat n])
           [0..<nat n])"

definition simplemax_Q_diag :: "int \<Rightarrow> real \<Rightarrow> real list" where
  "simplemax_Q_diag n a =
     map (\<lambda>i. - (real_of_int (n - 1) * a / 2) + real i) [0..<nat n]"

section \<open>qte.eigencalc: the Hermitian eigensolver\<close>

text \<open>
  The solver keeps a pointer to its stored matrix, and \<^verbatim>\<open>qte_eigencalc_bang\<close> hands a
  second buffer to LAPACK, which overwrites it in place. Complex buffers therefore live
  in an explicit store: a map from addresses to contents and the next unused address.
  \<^verbatim>\<open>malloc\<close> either fails or returns the next unused address, with arbitrary contents;
  \<^verbatim>\<open>free\<close> removes the block. The other buffers of the solver (\<open>w\<close>, \<open>rwork\<close>, \<open>work\<close>
  and the two atom lists) are local to one call and never shared: each is a flag that
  says whether its request is granted, and a value.
\<close>

record store =
  cells :: "nat \<rightharpoonup> complex list"
  brk :: nat

record t_qte_eigencalc =
  eig_n :: int
  eig_matrix :: "nat option"

text \<open>
  The environment of the solver: one flag for each request, and the contents of fresh
  memory, which may depend on the address (complex buffers) or the cell (real buffers).
\<close>

record emem =
  em_matrix :: bool
  em_A :: bool
  em_w :: bool
  em_rwork :: bool
  em_work :: bool
  em_eigvals_list :: bool
  em_eigvecs_list :: bool
  fresh_complex :: "nat \<Rightarrow> nat \<Rightarrow> complex"
  fresh_real :: "nat \<Rightarrow> real"

definition malloc_complex :: "bool \<Rightarrow> (nat \<Rightarrow> nat \<Rightarrow> complex) \<Rightarrow> int \<Rightarrow> store \<Rightarrow> nat option \<times> store" where
  "malloc_complex ok junk cnt h =
     (if ok
      then (Some (brk h),
            h\<lparr>cells := (cells h)(brk h \<mapsto> map (junk (brk h)) [0..<nat cnt]), brk := Suc (brk h)\<rparr>)
      else (None, h))"

definition free_complex :: "nat \<Rightarrow> store \<Rightarrow> store" where
  "free_complex p h = h\<lparr>cells := (cells h)(p := None)\<rparr>"

text \<open>
  \<^verbatim>\<open>zheev_\<close> belongs to the Accelerate framework, not to this repository; it is a
  parameter of the model. It reads \<open>jobz\<close>, \<open>uplo\<close>, \<open>N\<close>, the matrix \<open>A\<close>, \<open>LDA\<close> and
  \<open>lwork\<close>; it returns the new contents of \<open>A\<close>, the eigenvalues \<open>w\<close>, the real part of
  \<^verbatim>\<open>work[0]\<close> and \<open>info\<close>.
\<close>

record zheev_result =
  z_A :: "complex list"
  z_w :: "real list"
  z_work0 :: real
  z_info :: int

type_synonym zheev_fn = "char \<Rightarrow> char \<Rightarrow> int \<Rightarrow> complex list \<Rightarrow> int \<Rightarrow> int \<Rightarrow> zheev_result"

text \<open>
  \<^verbatim>\<open>qte_eigencalc_new\<close>: dimension 3 unless the first argument, read as a long, is
  positive.
\<close>

definition qte_eigencalc_new :: "atom list \<Rightarrow> t_qte_eigencalc" where
  "qte_eigencalc_new argv =
     (let x0 = \<lparr>eig_n = 3, eig_matrix = None\<rparr>
      in if 1 \<le> length argv
         then (let tmp = atom_getlong (argv ! 0) in if 0 < tmp then x0\<lparr>eig_n := tmp\<rparr> else x0)
         else x0)"

text \<open>\<^verbatim>\<open>qte_eigencalc_dim\<close>, the \<^verbatim>\<open>dim\<close> message.\<close>

definition qte_eigencalc_dim ::
  "t_qte_eigencalc \<Rightarrow> store \<Rightarrow> int \<Rightarrow> t_qte_eigencalc \<times> store \<times> event list" where
  "qte_eigencalc_dim x h n =
     (if n \<le> 0 then (x, h, [Error ''dim must be > 0'' []])
      else if eig_n x = n then (x, h, [])
      else
        let x1 = x\<lparr>eig_n := n\<rparr>
        in (case eig_matrix x1 of
              Some p \<Rightarrow> (x1\<lparr>eig_matrix := None\<rparr>, free_complex p h,
                         [Post ''Dimension set to %ld'' [n]])
            | None \<Rightarrow> (x1, h, [Post ''Dimension set to %ld'' [n]])))"

text \<open>
  \<^verbatim>\<open>qte_eigencalc_list\<close>, the list message (accept). The old block is freed before the new
  one is requested, and the result of \<^verbatim>\<open>malloc\<close> is assigned to \<^verbatim>\<open>x->matrix\<close> before it is
  tested.
\<close>

definition qte_eigencalc_list ::
  "emem \<Rightarrow> t_qte_eigencalc \<Rightarrow> store \<Rightarrow> atom list \<Rightarrow> t_qte_eigencalc \<times> store \<times> event list" where
  "qte_eigencalc_list m x h argv =
     (let n = eig_n x; total = 2 * n * n; argc = int (length argv) in
      if argc \<noteq> total
      then (x, h, [Error ''Expected %ld floats for complex matrix, got %ld'' [total, argc]])
      else
        let h1 = (case eig_matrix x of Some p \<Rightarrow> free_complex p h | None \<Rightarrow> h);
            a = malloc_complex (em_matrix m) (fresh_complex m) (n * n) h1;
            h2 = snd a;
            x1 = x\<lparr>eig_matrix := fst a\<rparr>
        in (case fst a of
              None \<Rightarrow> (x1, h2, [Error ''Memory allocation failed for matrix storage.'' []])
            | Some p \<Rightarrow>
                (x1,
                 h2\<lparr>cells := (cells h2)(p \<mapsto>
                      map (\<lambda>i. let re = atom_getfloat (argv ! (2 * i));
                                   im = atom_getfloat (argv ! (2 * i + 1))
                               in Complex re im) [0..<nat (n * n)])\<rparr>,
                 [Post ''Complex matrix stored (dimension %ld).'' [n]])))"

text \<open>
  The loop of \<^verbatim>\<open>qte_eigencalc_bang\<close> that copies the stored row-major matrix into the
  column-major buffer: \<^verbatim>\<open>A[j*n + i] = x->matrix[i*n + j]\<close>.
\<close>

definition transpose_step :: "complex list \<Rightarrow> nat \<Rightarrow> nat \<Rightarrow> complex list \<Rightarrow> nat \<Rightarrow> complex list" where
  "transpose_step M n i A j = A[j * n + i := M ! (i * n + j)]"

definition to_column_major :: "complex list \<Rightarrow> int \<Rightarrow> complex list \<Rightarrow> complex list" where
  "to_column_major M n A =
     foldl (\<lambda>b i. foldl (transpose_step M (nat n) i) b [0..<nat n]) A [0..<nat n]"

text \<open>
  \<^verbatim>\<open>qte_eigencalc_bang\<close> (decompose), in three parts that follow the source from its end
  to its start. The last part (source lines 239 to 277) emits the eigenvalues \<open>w\<close> on the
  left outlet and then the matrix \<open>A\<close>, as LAPACK left it, on the right outlet; the
  eigenvalues are already out when the request for the second list fails.
\<close>

definition bang_emit :: "emem \<Rightarrow> int \<Rightarrow> real list \<Rightarrow> complex list \<Rightarrow> event list" where
  "bang_emit m n w A =
     (let total = n * n in
      if \<not> em_eigvals_list m
      then [Error ''Memory allocation failed for eigenvalue output list.'' []]
      else
        let eigvals = Outlet_list 0 (map (\<lambda>i. w ! i) [0..<nat n])
        in if \<not> em_eigvecs_list m
           then [eigvals, Error ''Memory allocation failed for eigenvector output list.'' []]
           else
             let eigvecs_list = map (fresh_real m) [0..<nat (2 * total)];
                 filled = flatten_loop (\<lambda>j i. A ! (j * nat n + i)) n eigvecs_list
             in [eigvals,
                 Outlet_list 1 (take (nat (2 * total)) filled),
                 Post ''Eigen-decomposition completed successfully.'' []])"

text \<open>
  The middle part (lines 187 to 237): the workspace query and the decomposition, both
  on the block at \<open>pA\<close>, which \<^verbatim>\<open>zheev_\<close> overwrites in place.
\<close>

definition bang_solve :: "zheev_fn \<Rightarrow> emem \<Rightarrow> int \<Rightarrow> nat \<Rightarrow> store \<Rightarrow> store \<times> event list" where
  "bang_solve zheev m n pA h =
     (let N = n; LDA = N; lwork = - 1;
          q = zheev CHR ''V'' CHR ''U'' N (the (cells h pA)) LDA lwork;
          h3 = h\<lparr>cells := (cells h)(pA \<mapsto> z_A q)\<rparr>
      in if z_info q \<noteq> 0
         then (h3, [Error ''zheev_ workspace query error: info=%d'' [z_info q]])
         else
           let lwork1 = trunc_long (z_work0 q) + 1;
               lwork2 = (if lwork1 < 1 then 1 else lwork1)
           in if \<not> em_work m
              then (h3, [Error ''Memory allocation failed for work.'' []])
              else
                let d = zheev CHR ''V'' CHR ''U'' N (the (cells h3 pA)) LDA lwork2;
                    h4 = h3\<lparr>cells := (cells h3)(pA \<mapsto> z_A d)\<rparr>;
                    w = z_w d
                in if z_info d \<noteq> 0
                   then (h4, [Error ''Eigen-decomposition failed: info=%d'' [z_info d]])
                   else (h4, bang_emit m n w (the (cells h4 pA))))"

text \<open>
  The function itself (lines 157 to 185, and \<^verbatim>\<open>free(A)\<close>, which ends every path once \<open>A\<close>
  exists). The object is an argument and a result although the source never assigns to
  it, so that claims about the state can be stated. A stored pointer without a block
  would be a read of freed memory.
\<close>

definition qte_eigencalc_bang ::
  "zheev_fn \<Rightarrow> emem \<Rightarrow> t_qte_eigencalc \<Rightarrow> store \<Rightarrow> t_qte_eigencalc \<times> store \<times> event list" where
  "qte_eigencalc_bang zheev m x h =
     (case eig_matrix x of
        None \<Rightarrow> (x, h, [Error ''No matrix stored. Use a list message first.'' []])
      | Some pm \<Rightarrow>
        (let n = eig_n x; N = n; total = N * N;
             r = malloc_complex (em_A m) (fresh_complex m) total h;
             h1 = snd r
         in case fst r of
              None \<Rightarrow> (x, h1, [Error ''Memory allocation failed for LAPACK matrix.'' []])
            | Some pA \<Rightarrow>
              (case cells h1 pm of
                 None \<Rightarrow> (x, h1, [Crash])
               | Some M \<Rightarrow>
                   (let A0 = the (cells h1 pA);
                        h2 = h1\<lparr>cells := (cells h1)(pA \<mapsto> to_column_major M n A0)\<rparr>
                    in if \<not> em_w m
                       then (x, free_complex pA h2,
                             [Error ''Memory allocation failed for eigenvalues.'' []])
                       else if \<not> em_rwork m
                       then (x, free_complex pA h2,
                             [Error ''Memory allocation failed for rwork.'' []])
                       else
                         let s = bang_solve zheev m n pA h2
                         in (x, free_complex pA (fst s), snd s)))))"

text \<open>
  The state the solver's own operations keep: a positive dimension, and a stored pointer
  (if any) to a live block of \<open>n * n\<close> entries below the next unused address.
\<close>

definition solver_inv :: "t_qte_eigencalc \<Rightarrow> store \<Rightarrow> bool" where
  "solver_inv x h =
     (0 < eig_n x \<and>
      (case eig_matrix x of
         None \<Rightarrow> True
       | Some p \<Rightarrow> p < brk h \<and>
           (case cells h p of None \<Rightarrow> False
            | Some M \<Rightarrow> length M = nat (eig_n x * eig_n x))))"

text \<open>The stored matrix as a value: \<open>None\<close> in the Empty state.\<close>

definition stored_matrix :: "t_qte_eigencalc \<Rightarrow> store \<Rightarrow> complex list option" where
  "stored_matrix x h = (case eig_matrix x of None \<Rightarrow> None | Some p \<Rightarrow> cells h p)"

text \<open>Two environments that grant the same requests (fresh contents may differ).\<close>

definition same_grants :: "emem \<Rightarrow> emem \<Rightarrow> bool" where
  "same_grants m1 m2 =
     (em_A m1 = em_A m2 \<and> em_w m1 = em_w m2 \<and> em_rwork m1 = em_rwork m2
      \<and> em_work m1 = em_work m2 \<and> em_eigvals_list m1 = em_eigvals_list m2
      \<and> em_eigvecs_list m1 = em_eigvecs_list m2)"

text \<open>
  Concrete environments for the examples: every request granted into zeroed memory, an
  empty store, and a stand-in for \<^verbatim>\<open>zheev_\<close> that reports success, leaves \<open>A\<close> as it is
  and returns zeros as eigenvalues.
\<close>

definition granted :: emem where
  "granted = \<lparr>em_matrix = True, em_A = True, em_w = True, em_rwork = True, em_work = True,
              em_eigvals_list = True, em_eigvecs_list = True,
              fresh_complex = (\<lambda>p i. 0), fresh_real = (\<lambda>i. 0)\<rparr>"

definition empty_store :: store where
  "empty_store = \<lparr>cells = Map.empty, brk = 0\<rparr>"

definition zheev_stub :: zheev_fn where
  "zheev_stub jobz uplo N A LDA lwork =
     \<lparr>z_A = A, z_w = replicate (nat N) 0, z_work0 = 1, z_info = 0\<rparr>"

section \<open>Lemmas on the loops\<close>

subsection \<open>Writing (real, imaginary) pairs\<close>

lemma half_cases: "idx = 2 * k \<or> idx = 2 * k + 1 \<or> idx div 2 \<noteq> (k::nat)"
  by presburger

lemma flatten_inner:
  assumes "2 * (i * N + m) \<le> length buf"
  shows "length (foldl (flatten_step cell N i) buf [0..<m]) = length buf
       \<and> (\<forall>idx < length buf. foldl (flatten_step cell N i) buf [0..<m] ! idx =
            (if i * N \<le> idx div 2 \<and> idx div 2 < i * N + m
             then (if even idx then Re (cell i (idx div 2 - i * N))
                   else Im (cell i (idx div 2 - i * N)))
             else buf ! idx))"
  using assms
proof (induction m)
  case 0
  then show ?case by simp
next
  case (Suc m)
  let ?r = "foldl (flatten_step cell N i) buf [0..<m]"
  let ?c = "i * N"
  from Suc have IH: "length ?r = length buf"
    "\<And>idx. idx < length buf \<Longrightarrow> ?r ! idx =
            (if ?c \<le> idx div 2 \<and> idx div 2 < ?c + m
             then (if even idx then Re (cell i (idx div 2 - ?c))
                   else Im (cell i (idx div 2 - ?c)))
             else buf ! idx)"
    by auto
  have step: "foldl (flatten_step cell N i) buf [0..<Suc m]
      = (?r[2 * (?c + m) := Re (cell i m)])[2 * (?c + m) + 1 := Im (cell i m)]"
    by (simp add: flatten_step_def Let_def)
  have len: "length (foldl (flatten_step cell N i) buf [0..<Suc m]) = length buf"
    unfolding step using IH(1) by simp
  have bound: "2 * (?c + m) + 1 < length buf" using Suc.prems by simp
  have nth: "foldl (flatten_step cell N i) buf [0..<Suc m] ! idx =
            (if ?c \<le> idx div 2 \<and> idx div 2 < ?c + Suc m
             then (if even idx then Re (cell i (idx div 2 - ?c))
                   else Im (cell i (idx div 2 - ?c)))
             else buf ! idx)" if "idx < length buf" for idx
  proof -
    consider (a) "idx = 2 * (?c + m)" | (b) "idx = 2 * (?c + m) + 1"
      | (c) "idx div 2 \<noteq> ?c + m" using half_cases [of idx "?c + m"] by blast
    then show ?thesis
    proof cases
      case a
      then have "idx div 2 = ?c + m" "even idx" by simp_all
      then show ?thesis unfolding step using a bound IH(1) by (simp add: nth_list_update)
    next
      case b
      then have "idx div 2 = ?c + m" "odd idx" by simp_all
      then show ?thesis unfolding step using b bound IH(1) by (simp add: nth_list_update)
    next
      case c
      then have "idx \<noteq> 2 * (?c + m)" "idx \<noteq> 2 * (?c + m) + 1" by auto
      then have "foldl (flatten_step cell N i) buf [0..<Suc m] ! idx = ?r ! idx"
        unfolding step by (simp add: nth_list_update)
      also have "\<dots> = (if ?c \<le> idx div 2 \<and> idx div 2 < ?c + m
             then (if even idx then Re (cell i (idx div 2 - ?c))
                   else Im (cell i (idx div 2 - ?c)))
             else buf ! idx)" using IH(2) that by simp
      finally show ?thesis using c by (auto simp: less_Suc_eq)
    qed
  qed
  show ?case using len nth by blast
qed

lemma flatten_outer:
  assumes "2 * (m * N) \<le> length buf" and "m \<le> N"
  shows "length (foldl (\<lambda>b i. foldl (flatten_step cell N i) b [0..<N]) buf [0..<m]) = length buf
       \<and> (\<forall>idx < length buf.
            foldl (\<lambda>b i. foldl (flatten_step cell N i) b [0..<N]) buf [0..<m] ! idx =
            (if idx div 2 < m * N
             then (if even idx then Re (cell (idx div 2 div N) (idx div 2 mod N))
                   else Im (cell (idx div 2 div N) (idx div 2 mod N)))
             else buf ! idx))"
  using assms
proof (induction m)
  case 0
  then show ?case by simp
next
  case (Suc m)
  let ?r = "foldl (\<lambda>b i. foldl (flatten_step cell N i) b [0..<N]) buf [0..<m]"
  from Suc have IH: "length ?r = length buf"
    "\<And>idx. idx < length buf \<Longrightarrow> ?r ! idx =
            (if idx div 2 < m * N
             then (if even idx then Re (cell (idx div 2 div N) (idx div 2 mod N))
                   else Im (cell (idx div 2 div N) (idx div 2 mod N)))
             else buf ! idx)"
    by auto
  have step: "foldl (\<lambda>b i. foldl (flatten_step cell N i) b [0..<N]) buf [0..<Suc m]
      = foldl (flatten_step cell N m) ?r [0..<N]" by simp
  have fits: "2 * (m * N + N) \<le> length ?r" using Suc.prems IH(1) by (simp add: algebra_simps)
  note inner = flatten_inner [OF fits, of cell]
  have len: "length (foldl (\<lambda>b i. foldl (flatten_step cell N i) b [0..<N]) buf [0..<Suc m]) = length buf"
    unfolding step using inner IH(1) by simp
  have nth: "foldl (\<lambda>b i. foldl (flatten_step cell N i) b [0..<N]) buf [0..<Suc m] ! idx =
            (if idx div 2 < Suc m * N
             then (if even idx then Re (cell (idx div 2 div N) (idx div 2 mod N))
                   else Im (cell (idx div 2 div N) (idx div 2 mod N)))
             else buf ! idx)" if "idx < length buf" for idx
  proof (cases "m * N \<le> idx div 2 \<and> idx div 2 < m * N + N")
    case True
    then have "0 < N" by auto
    obtain d where d: "idx div 2 = m * N + d" "d < N"
      using True by (metis add.commute le_Suc_ex nat_add_left_cancel_less)
    have "idx div 2 div N = m" "idx div 2 mod N = d" "idx div 2 - m * N = d"
      using d \<open>0 < N\<close> by simp_all
    then show ?thesis unfolding step using inner that IH(1) True by simp
  next
    case False
    have "foldl (flatten_step cell N m) ?r [0..<N] ! idx = ?r ! idx"
      using inner that IH(1) False by auto
    then show ?thesis unfolding step using IH(2) [OF that] False by (auto simp: not_less)
  qed
  show ?case using len nth by blast
qed

lemma flatten_loop_cells:
  assumes "length buf = 2 * (nat n * nat n)"
  shows "length (flatten_loop cell n buf) = length buf"
    and "idx < length buf \<Longrightarrow> flatten_loop cell n buf ! idx =
           (if even idx then Re (cell (idx div 2 div nat n) (idx div 2 mod nat n))
            else Im (cell (idx div 2 div nat n) (idx div 2 mod nat n)))"
proof -
  have fits: "2 * (nat n * nat n) \<le> length buf" using assms by simp
  note outer = flatten_outer [OF fits order_refl, of cell]
  show "length (flatten_loop cell n buf) = length buf"
    unfolding flatten_loop_def using outer by simp
  show "flatten_loop cell n buf ! idx =
           (if even idx then Re (cell (idx div 2 div nat n) (idx div 2 mod nat n))
            else Im (cell (idx div 2 div nat n) (idx div 2 mod nat n)))"
    if "idx < length buf"
  proof -
    have "idx div 2 < nat n * nat n" using that assms by simp
    then show ?thesis unfolding flatten_loop_def using outer that by simp
  qed
qed

text \<open>The result does not depend on what the buffer held before.\<close>

lemma flatten_loop_overwrites:
  assumes "length buf = 2 * (nat n * nat n)" and "length buf' = 2 * (nat n * nat n)"
  shows "flatten_loop cell n buf = flatten_loop cell n buf'"
proof (rule nth_equalityI)
  show "length (flatten_loop cell n buf) = length (flatten_loop cell n buf')"
    using flatten_loop_cells(1) [OF assms(1)] flatten_loop_cells(1) [OF assms(2)] assms by simp
next
  fix idx assume "idx < length (flatten_loop cell n buf)"
  then have "idx < length buf" "idx < length buf'"
    using flatten_loop_cells(1) [OF assms(1), where cell = cell] assms by simp_all
  then show "flatten_loop cell n buf ! idx = flatten_loop cell n buf' ! idx"
    using flatten_loop_cells(2) [OF assms(1)] flatten_loop_cells(2) [OF assms(2)] by simp
qed

lemma flatten_matrix_cells:
  assumes "length buf = 2 * (nat n * nat n)"
  shows "length (flatten_matrix H n buf) = length buf"
    and "idx < length buf \<Longrightarrow> flatten_matrix H n buf ! idx =
           (if even idx then Re (H ! (idx div 2 div nat n) ! (idx div 2 mod nat n))
            else Im (H ! (idx div 2 div nat n) ! (idx div 2 mod nat n)))"
  unfolding flatten_matrix_def
  using flatten_loop_cells [OF assms, where cell = "\<lambda>i j. H ! i ! j"] by simp_all

lemma flatten_matrix_entry:
  assumes "length buf = 2 * (nat n * nat n)" and "i < nat n" and "j < nat n"
  shows "flatten_matrix H n buf ! (2 * (i * nat n + j)) = Re (H ! i ! j)"
    and "flatten_matrix H n buf ! (2 * (i * nat n + j) + 1) = Im (H ! i ! j)"
proof -
  let ?N = "nat n"
  have lt: "i * ?N + j < ?N * ?N"
  proof -
    have "i * ?N + j < Suc i * ?N" using assms(3) by simp
    also have "\<dots> \<le> ?N * ?N" using assms(2) by (intro mult_le_mono1) simp
    finally show ?thesis .
  qed
  have dm: "(i * ?N + j) div ?N = i" "(i * ?N + j) mod ?N = j"
    using assms(3) by simp_all
  have i0: "2 * (i * ?N + j) < length buf" "2 * (i * ?N + j) + 1 < length buf"
    using lt assms(1) by simp_all
  show "flatten_matrix H n buf ! (2 * (i * nat n + j)) = Re (H ! i ! j)"
    using flatten_matrix_cells(2) [OF assms(1) i0(1), of H] dm by simp
  show "flatten_matrix H n buf ! (2 * (i * nat n + j) + 1) = Im (H ! i ! j)"
    using flatten_matrix_cells(2) [OF assms(1) i0(2), of H] dm by simp
qed

subsection \<open>Matrix helpers of the builder\<close>

lemma foldl_add_sum:
  "foldl (\<lambda>s k. s + f k) (z::complex) [0..<m] = z + (\<Sum>k<m. f k)"
  by (induction m) (simp_all add: add.assoc)

lemma fourier_nth:
  assumes "k < nat n" and "l < nat n"
  shows "compute_fourier_matrix n ! k ! l =
           complex_of_real (1 / sqrt (real_of_int n))
             * (complex_of_real (cos (2 * pi * real k * real l / real_of_int n))
                + \<i> * complex_of_real (sin (2 * pi * real k * real l / real_of_int n)))"
  using assms by (simp add: compute_fourier_matrix_def Let_def)

lemma conjugate_transpose_nth:
  assumes "i < nat n" and "j < nat n"
  shows "compute_conjugate_transpose F n ! i ! j = cnj (F ! j ! i)"
  using assms by (simp add: compute_conjugate_transpose_def)

lemma multiply_diag_nth:
  assumes "i < nat n" and "j < nat n"
  shows "multiply_diag_matrix D M n ! i ! j = complex_of_real (D ! i) * (M ! i ! j)"
  using assms by (simp add: multiply_diag_matrix_def)

lemma multiply_complex_nth:
  assumes "i < nat n" and "j < nat n"
  shows "multiply_complex_matrices A B n ! i ! j = (\<Sum>k<nat n. (A ! i ! k) * (B ! k ! j))"
  using assms by (simp add: multiply_complex_matrices_def foldl_add_sum)

lemma hamiltonian_P_nth:
  assumes "i < nat n" and "j < nat n"
  shows "hamiltonian_P n ! i ! j =
     (\<Sum>k<nat n. compute_fourier_matrix n ! i ! k * complex_of_real (real k)
                    * cnj (compute_fourier_matrix n ! j ! k))"
proof -
  have "hamiltonian_P n ! i ! j =
     (\<Sum>k<nat n. compute_fourier_matrix n ! i ! k *
        (multiply_diag_matrix (hamiltonian_PImpulse n)
           (compute_conjugate_transpose (compute_fourier_matrix n) n) n ! k ! j))"
    using assms by (simp add: hamiltonian_P_def Let_def multiply_complex_nth)
  also have "\<dots> = (\<Sum>k<nat n. compute_fourier_matrix n ! i ! k * complex_of_real (real k)
                    * cnj (compute_fourier_matrix n ! j ! k))"
    using assms
    by (intro sum.cong refl)
       (simp add: multiply_diag_nth conjugate_transpose_nth hamiltonian_PImpulse_def)
  finally show ?thesis .
qed

lemma hamiltonian_P_hermitian:
  assumes "i < nat n" and "j < nat n"
  shows "cnj (hamiltonian_P n ! j ! i) = hamiltonian_P n ! i ! j"
  using assms by (simp add: hamiltonian_P_nth mult_ac)





lemma round_c_near: "\<bar>round_c x - x\<bar> \<le> 1 / 2"
proof (cases "0 \<le> x")
  case True
  have "real_of_int \<lfloor>x + 1 / 2\<rfloor> \<le> x + 1 / 2" "x + 1 / 2 < real_of_int \<lfloor>x + 1 / 2\<rfloor> + 1"
    by linarith+
  moreover have "round_c x = real_of_int \<lfloor>x + 1 / 2\<rfloor>"
    using True by (simp add: round_c_def)
  ultimately show ?thesis by linarith
next
  case False
  have "x - 1 / 2 \<le> real_of_int \<lceil>x - 1 / 2\<rceil>" "real_of_int \<lceil>x - 1 / 2\<rceil> < x - 1 / 2 + 1"
    by linarith+
  moreover have "round_c x = real_of_int \<lceil>x - 1 / 2\<rceil>"
    using False by (simp add: round_c_def)
  ultimately show ?thesis by linarith
qed


lemma round5_near: "\<bar>round5 x - x\<bar> \<le> 1 / 200000"
proof -
  have "\<bar>round_c (x * 100000) - x * 100000\<bar> \<le> 1 / 2" by (rule round_c_near)
  then show ?thesis by (simp add: round5_def field_simps abs_le_iff)
qed




lemma compute_hamiltonian_ok:
  assumes "mem_ok m"
  shows "compute_hamiltonian m x =
           Inr (map (\<lambda>i. map (\<lambda>j. hamiltonian_entry
                     (multiply_complex_matrices (hamiltonian_P (qho_n x)) (hamiltonian_P (qho_n x)) (qho_n x))
                     (hamiltonian_Q_diag (qho_n x) (qho_a x)) i j) [0..<nat (qho_n x)])
                 [0..<nat (qho_n x)])"
  using assms by (simp add: compute_hamiltonian_def mem_ok_def alloc_complex_matrix_def Let_def)


lemma nat_2nn: "0 \<le> n \<Longrightarrow> nat (2 * n * n) = 2 * (nat n * nat n)"
  by (simp add: nat_mult_distrib)

lemma bang_ok:
  assumes "mem_ok m" and "0 \<le> qho_n x" and "compute_hamiltonian m x = Inr H"
  shows "qte_quantumho_bang m x =
           [Outlet_list 0 (flatten_matrix H (qho_n x)
                             (map (fresh_atoms m) [0..<nat (2 * qho_n x * qho_n x)]))]"
proof -
  let ?buf = "map (fresh_atoms m) [0..<nat (2 * qho_n x * qho_n x)]"
  have len: "length ?buf = 2 * (nat (qho_n x) * nat (qho_n x))"
    using assms(2) by (simp add: nat_2nn)
  have "length (flatten_matrix H (qho_n x) ?buf) = nat (2 * qho_n x * qho_n x)"
    using flatten_matrix_cells(1) [OF len, of H] by simp
  then show ?thesis
    using assms(1,3) by (simp add: qte_quantumho_bang_def sysmem_newptr_def mem_ok_def Let_def)
qed

lemma euler_form:
  "complex_of_real (cos t) + \<i> * complex_of_real (sin t) = exp (\<i> * complex_of_real t)"
  by (simp add: cis_conv_exp [symmetric] complex_eq_iff)







subsection \<open>The column-major copy\<close>

lemma transpose_inner:
  assumes "i < N" and "m * N \<le> length A"
  shows "length (foldl (transpose_step M N i) A [0..<m]) = length A
       \<and> (\<forall>idx < length A. foldl (transpose_step M N i) A [0..<m] ! idx =
            (if idx mod N = i \<and> idx div N < m then M ! (i * N + idx div N) else A ! idx))"
  using assms(2)
proof (induction m)
  case 0
  then show ?case by simp
next
  case (Suc m)
  let ?r = "foldl (transpose_step M N i) A [0..<m]"
  from Suc have IH: "length ?r = length A"
    "\<And>idx. idx < length A \<Longrightarrow> ?r ! idx =
            (if idx mod N = i \<and> idx div N < m then M ! (i * N + idx div N) else A ! idx)"
    by auto
  have step: "foldl (transpose_step M N i) A [0..<Suc m] = ?r[m * N + i := M ! (i * N + m)]"
    by (simp add: transpose_step_def)
  have bound: "m * N + i < length A" using Suc.prems assms(1) by simp
  have dm: "(m * N + i) mod N = i" "(m * N + i) div N = m" using assms(1) by simp_all
  have nth: "foldl (transpose_step M N i) A [0..<Suc m] ! idx =
            (if idx mod N = i \<and> idx div N < Suc m then M ! (i * N + idx div N) else A ! idx)"
    if "idx < length A" for idx
  proof (cases "idx = m * N + i")
    case True
    then show ?thesis unfolding step using bound IH(1) dm by simp
  next
    case False
    have "\<not> (idx mod N = i \<and> idx div N = m)"
    proof
      assume "idx mod N = i \<and> idx div N = m"
      then have "idx = m * N + i" using div_mult_mod_eq [of idx N] by simp
      with False show False by simp
    qed
    then show ?thesis unfolding step using False IH(2) [OF that] by (auto simp: less_Suc_eq)
  qed
  show ?case unfolding step using IH(1) nth step by simp
qed

lemma transpose_outer:
  assumes "N * N \<le> length A" and "m \<le> N"
  shows "length (foldl (\<lambda>b i. foldl (transpose_step M N i) b [0..<N]) A [0..<m]) = length A
       \<and> (\<forall>idx < length A.
            foldl (\<lambda>b i. foldl (transpose_step M N i) b [0..<N]) A [0..<m] ! idx =
            (if idx div N < N \<and> idx mod N < m then M ! ((idx mod N) * N + idx div N)
             else A ! idx))"
  using assms(2)
proof (induction m)
  case 0
  then show ?case by simp
next
  case (Suc m)
  let ?r = "foldl (\<lambda>b i. foldl (transpose_step M N i) b [0..<N]) A [0..<m]"
  from Suc have IH: "length ?r = length A"
    "\<And>idx. idx < length A \<Longrightarrow> ?r ! idx =
            (if idx div N < N \<and> idx mod N < m then M ! ((idx mod N) * N + idx div N)
             else A ! idx)"
    by auto
  have step: "foldl (\<lambda>b i. foldl (transpose_step M N i) b [0..<N]) A [0..<Suc m]
      = foldl (transpose_step M N m) ?r [0..<N]" by simp
  have mN: "m < N" using Suc.prems by simp
  have fits: "N * N \<le> length ?r" using assms(1) IH(1) by simp
  note inner = transpose_inner [OF mN fits, of M]
  have nth: "foldl (transpose_step M N m) ?r [0..<N] ! idx =
            (if idx div N < N \<and> idx mod N < Suc m then M ! ((idx mod N) * N + idx div N)
             else A ! idx)" if "idx < length A" for idx
  proof -
    have "foldl (transpose_step M N m) ?r [0..<N] ! idx =
       (if idx mod N = m \<and> idx div N < N then M ! (m * N + idx div N) else ?r ! idx)"
      using inner that IH(1) by simp
    then show ?thesis using IH(2) [OF that] by (auto simp: less_Suc_eq)
  qed
  show ?case unfolding step using inner IH(1) nth by simp
qed

text \<open>The column-major copy does not depend on what the fresh buffer held.\<close>

lemma to_column_major_overwrites:
  assumes "length A = nat n * nat n" and "length A' = nat n * nat n"
  shows "to_column_major M n A = to_column_major M n A'"
proof (rule nth_equalityI)
  have o: "nat n * nat n \<le> length A" and o': "nat n * nat n \<le> length A'"
    using assms by simp_all
  note r = transpose_outer [OF o order_refl, of M] and r' = transpose_outer [OF o' order_refl, of M]
  show len: "length (to_column_major M n A) = length (to_column_major M n A')"
    unfolding to_column_major_def using r r' assms by simp
  fix idx assume "idx < length (to_column_major M n A)"
  then have i: "idx < nat n * nat n"
    unfolding to_column_major_def using r assms by simp
  then have "0 < nat n" by (cases "nat n") simp_all
  then have c: "idx div nat n < nat n" "idx mod nat n < nat n"
    using i by (simp_all add: less_mult_imp_div_less)
  show "to_column_major M n A ! idx = to_column_major M n A' ! idx"
    unfolding to_column_major_def using r r' i c assms by simp
qed

lemma to_column_major_nth:
  assumes "length A = nat n * nat n" and "i < nat n" and "j < nat n"
  shows "length (to_column_major M n A) = nat n * nat n"
    and "to_column_major M n A ! (j * nat n + i) = M ! (i * nat n + j)"
proof -
  have o: "nat n * nat n \<le> length A" using assms by simp
  note r = transpose_outer [OF o order_refl, of M]
  show "length (to_column_major M n A) = nat n * nat n"
    unfolding to_column_major_def using r assms by simp
  have "j * nat n + i < Suc j * nat n" using assms(2) by simp
  also have "\<dots> \<le> nat n * nat n" using assms(3) by (intro mult_le_mono1) simp
  finally have lt: "j * nat n + i < length A" using assms(1) by simp
  have dm: "(j * nat n + i) div nat n = j" "(j * nat n + i) mod nat n = i"
    using assms(2) by simp_all
  show "to_column_major M n A ! (j * nat n + i) = M ! (i * nat n + j)"
    unfolding to_column_major_def using r lt dm assms by simp
qed

subsection \<open>Decomposition: state and outputs\<close>

lemma bang_object_unchanged: "fst (qte_eigencalc_bang zheev m x h) = x"
  by (simp add: qte_eigencalc_bang_def Let_def split: option.splits)

lemma bang_solve_frame:
  assumes "p \<noteq> pA"
  shows "cells (fst (bang_solve zheev m n pA h)) p = cells h p"
    and "brk (fst (bang_solve zheev m n pA h)) = brk h"
  using assms by (simp_all add: bang_solve_def Let_def)

lemma bang_store:
  assumes "eig_matrix x = Some p" and "p < brk h"
  shows "cells (fst (snd (qte_eigencalc_bang zheev m x h))) p = cells h p"
    and "brk h \<le> brk (fst (snd (qte_eigencalc_bang zheev m x h)))"
proof -
  have ne: "p \<noteq> brk h" using assms(2) by simp
  show "cells (fst (snd (qte_eigencalc_bang zheev m x h))) p = cells h p"
    using assms(1) ne
    by (simp add: qte_eigencalc_bang_def malloc_complex_def free_complex_def Let_def
        bang_solve_frame split: option.splits)
  show "brk h \<le> brk (fst (snd (qte_eigencalc_bang zheev m x h)))"
    using assms(1) ne
    by (simp add: qte_eigencalc_bang_def malloc_complex_def free_complex_def Let_def
        bang_solve_frame split: option.splits)
qed

lemma bang_emit_same:
  assumes "0 < n" and "em_eigvals_list m1 = em_eigvals_list m2"
    and "em_eigvecs_list m1 = em_eigvecs_list m2"
  shows "bang_emit m1 n w A = bang_emit m2 n w A"
proof -
  have two: "nat (2 * (n * n)) = 2 * (nat n * nat n)"
    using assms(1) by (simp add: nat_mult_distrib)
  have F: "flatten_loop cell n (map (fresh_real m1) [0..<nat (2 * (n * n))])
         = flatten_loop cell n (map (fresh_real m2) [0..<nat (2 * (n * n))])" for cell
    by (rule flatten_loop_overwrites) (simp_all add: two)
  show ?thesis using assms(2,3) by (simp add: bang_emit_def Let_def F)
qed

lemma bang_solve_same:
  assumes "cells h pA = cells h' pA'" and "0 < n"
    and "em_work m1 = em_work m2" and "em_eigvals_list m1 = em_eigvals_list m2"
    and "em_eigvecs_list m1 = em_eigvecs_list m2"
  shows "snd (bang_solve zheev m1 n pA h) = snd (bang_solve zheev m2 n pA' h')"
  using assms(1,3) bang_emit_same [OF assms(2,4,5)]
  by (simp add: bang_solve_def Let_def)

lemma bang_events_same:
  assumes "eig_matrix x = Some p"
    and "p < brk h" and "cells h p = Some M"
    and "p < brk h'" and "cells h' p = Some M"
    and "length M = nat (eig_n x * eig_n x)" and "0 < eig_n x"
    and "same_grants m1 m2"
  shows "snd (snd (qte_eigencalc_bang zheev m1 x h)) = snd (snd (qte_eigencalc_bang zheev m2 x h'))"
proof -
  let ?n = "eig_n x"
  have sq: "nat (?n * ?n) = nat ?n * nat ?n" using assms(7) by (simp add: nat_mult_distrib)
  have T: "to_column_major M ?n (map (fresh_complex m1 (brk h)) [0..<nat (?n * ?n)])
         = to_column_major M ?n (map (fresh_complex m2 (brk h')) [0..<nat (?n * ?n)])"
    by (rule to_column_major_overwrites) (simp_all add: sq)
  have g: "em_A m1 = em_A m2" "em_w m1 = em_w m2" "em_rwork m1 = em_rwork m2"
    "em_work m1 = em_work m2" "em_eigvals_list m1 = em_eigvals_list m2"
    "em_eigvecs_list m1 = em_eigvecs_list m2"
    using assms(8) by (simp_all add: same_grants_def)
  have ne: "p \<noteq> brk h" "p \<noteq> brk h'" using assms(2,4) by simp_all
  show ?thesis
  proof (cases "em_A m2 \<and> em_w m2 \<and> em_rwork m2")
    case False
    then show ?thesis
      using assms(1,3,5) ne g(1,2,3)
      by (auto simp: qte_eigencalc_bang_def malloc_complex_def Let_def)
  next
    case True
    show ?thesis
      using assms(1,3,5) ne g(1,2,3) True
      by (simp add: qte_eigencalc_bang_def malloc_complex_def Let_def T)
         (rule bang_solve_same; simp add: assms(7) g)
  qed
qed

lemma inv_new: "solver_inv (qte_eigencalc_new argv) h"
  by (simp add: solver_inv_def qte_eigencalc_new_def Let_def)

lemma inv_dim:
  assumes "solver_inv x h"
  shows "solver_inv (fst (qte_eigencalc_dim x h n)) (fst (snd (qte_eigencalc_dim x h n)))"
  using assms
  by (auto simp: solver_inv_def qte_eigencalc_dim_def Let_def split: option.splits)

lemma inv_list:
  assumes "solver_inv x h"
  shows "solver_inv (fst (qte_eigencalc_list m x h argv)) (fst (snd (qte_eigencalc_list m x h argv)))"
  using assms
  by (auto simp: solver_inv_def qte_eigencalc_list_def malloc_complex_def free_complex_def Let_def
      split: option.splits)

lemma inv_bang:
  assumes "solver_inv x h"
  shows "solver_inv (fst (qte_eigencalc_bang zheev m x h)) (fst (snd (qte_eigencalc_bang zheev m x h)))"
proof (cases "eig_matrix x")
  case None
  then show ?thesis using assms by (simp add: qte_eigencalc_bang_def)
next
  case (Some p)
  then have p: "p < brk h" using assms by (simp add: solver_inv_def)
  show ?thesis
    using assms Some bang_store [OF Some p, of zheev m] p
    by (simp add: bang_object_unchanged solver_inv_def)
qed


lemma upt_2: "[0..<2] = [0, Suc 0]"
  by (simp add: numeral_2_eq_2 upt_rec)

lemma bang_evaluated:
  "qte_eigencalc_bang zheev_stub granted \<lparr>eig_n = 1, eig_matrix = Some 0\<rparr>
       \<lparr>cells = [0 \<mapsto> [1]], brk = Suc k\<rparr>
     = (\<lparr>eig_n = 1, eig_matrix = Some 0\<rparr>, \<lparr>cells = [0 \<mapsto> [1]], brk = Suc (Suc k)\<rparr>,
        [Outlet_list 0 [0], Outlet_list 1 [1, 0],
         Post ''Eigen-decomposition completed successfully.'' []])"
  by (auto simp: qte_eigencalc_bang_def bang_solve_def bang_emit_def zheev_stub_def granted_def
      malloc_complex_def free_complex_def to_column_major_def transpose_step_def
      flatten_loop_def flatten_step_def trunc_long_def Let_def upt_2)

subsection \<open>The prototype against the builder\<close>

text \<open>
  The prototype's momentum operator is the transpose of the builder's, which is another
  matrix (entry \<open>(1, 0)\<close> in dimension 4 shows it); its position diagonal leaves the index
  term unscaled.
\<close>

lemma fourier_symmetric:
  assumes "k < nat n" and "l < nat n"
  shows "compute_fourier_matrix n ! k ! l = compute_fourier_matrix n ! l ! k"
  using assms by (simp add: fourier_nth mult_ac)

lemma simplemax_P_nth:
  assumes "i < nat n" and "j < nat n"
  shows "simplemax_P n ! i ! j =
     (\<Sum>k<nat n. cnj (compute_fourier_matrix n ! k ! i) * complex_of_real (real k)
                    * compute_fourier_matrix n ! k ! j)"
  using assms by (simp add: simplemax_P_def Let_def foldl_add_sum mult.assoc)

lemma simplemax_P_transposed:
  assumes "i < nat n" and "j < nat n"
  shows "simplemax_P n ! i ! j = hamiltonian_P n ! j ! i"
proof -
  have "simplemax_P n ! i ! j =
     (\<Sum>k<nat n. cnj (compute_fourier_matrix n ! k ! i) * complex_of_real (real k)
                    * compute_fourier_matrix n ! k ! j)"
    by (rule simplemax_P_nth [OF assms])
  also have "\<dots> = (\<Sum>k<nat n. compute_fourier_matrix n ! j ! k * complex_of_real (real k)
                    * cnj (compute_fourier_matrix n ! i ! k))"
    using assms by (intro sum.cong refl) (simp add: fourier_symmetric mult_ac)
  also have "\<dots> = hamiltonian_P n ! j ! i"
    by (rule hamiltonian_P_nth [OF assms(2,1), symmetric])
  finally show ?thesis .
qed

lemma simplemax_Q_diag_differs:
  "simplemax_Q_diag 2 2 ! 1 = 0 \<and> hamiltonian_Q_diag 2 2 ! 1 = 1"
  by (simp add: simplemax_Q_diag_def hamiltonian_Q_diag_def)

lemma three_half_pi: "cos (3 * pi / 2) = 0" "sin (3 * pi / 2) = - 1"
  using cos_3over2_pi sin_3over2_pi by simp_all

lemma fourier_4_row_0:
  "compute_fourier_matrix 4 ! 0 ! 0 = 1 / 2" "compute_fourier_matrix 4 ! 0 ! Suc 0 = 1 / 2"
  "compute_fourier_matrix 4 ! 0 ! 2 = 1 / 2" "compute_fourier_matrix 4 ! 0 ! 3 = 1 / 2"
  by (simp_all add: fourier_nth)

lemma fourier_4_row_1:
  "compute_fourier_matrix 4 ! Suc 0 ! 0 = 1 / 2" "compute_fourier_matrix 4 ! Suc 0 ! Suc 0 = \<i> / 2"
  "compute_fourier_matrix 4 ! Suc 0 ! 2 = - 1 / 2" "compute_fourier_matrix 4 ! Suc 0 ! 3 = - \<i> / 2"
  by (simp_all add: fourier_nth three_half_pi)

lemma sum_4: "(\<Sum>k<(4::nat). f k) = f 0 + f (Suc 0) + f 2 + (f 3 :: complex)"
  by (simp add: eval_nat_numeral lessThan_Suc add.commute add.left_commute)

lemma hamiltonian_P_4_0_1: "hamiltonian_P 4 ! 0 ! Suc 0 = Complex (- 1 / 2) (1 / 2)"
proof -
  have "hamiltonian_P 4 ! 0 ! Suc 0 =
      (\<Sum>k<4. compute_fourier_matrix 4 ! 0 ! k * complex_of_real (real k)
                    * cnj (compute_fourier_matrix 4 ! Suc 0 ! k))"
    using hamiltonian_P_nth [of 0 4 "Suc 0"] by simp
  also have "\<dots> = Complex (- 1 / 2) (1 / 2)"
    unfolding sum_4 fourier_4_row_0 fourier_4_row_1 by (simp add: complex_eq_iff)
  finally show ?thesis .
qed

lemma simplemax_P_other_order:
  "simplemax_P 4 ! 1 ! 0 = Complex (- 1 / 2) (1 / 2)
   \<and> hamiltonian_P 4 ! 1 ! 0 = Complex (- 1 / 2) (- 1 / 2)"
proof -
  have a: "simplemax_P 4 ! Suc 0 ! 0 = hamiltonian_P 4 ! 0 ! Suc 0"
    by (rule simplemax_P_transposed) simp_all
  have "cnj (hamiltonian_P 4 ! 0 ! Suc 0) = hamiltonian_P 4 ! Suc 0 ! 0"
    by (rule hamiltonian_P_hermitian) simp_all
  then have b: "hamiltonian_P 4 ! Suc 0 ! 0 = cnj (Complex (- 1 / 2) (1 / 2))"
    by (simp only: hamiltonian_P_4_0_1)
  show ?thesis unfolding One_nat_def a b hamiltonian_P_4_0_1 by (simp add: complex_eq_iff)
qed

section \<open>Properties of the Hamiltonian builder\<close>




text \<open>
  Claim C2. For every \<open>n \<ge> 2\<close> the momentum operator is \<open>F \<cdot> diag(PImpulse) \<cdot> Finv\<close> with
  \<open>F\<close> on the left: \<open>P[i][j] = \<Sum>k. F[i][k] * k * conj (F[j][k])\<close>, where
  \<open>F[k][l] = n\<^sup>-\<^sup>1\<^sup>/\<^sup>2 * exp (2\<pi>i k l / n)\<close> and \<open>PImpulse[i] = i\<close>.
\<close>

theorem momentum_operator_is_F_diag_Finv:
  assumes "2 \<le> n" and "i < nat n" and "j < nat n"
  shows "hamiltonian_P n ! i ! j =
           (\<Sum>k<nat n. compute_fourier_matrix n ! i ! k * of_nat k
                          * cnj (compute_fourier_matrix n ! j ! k))
         \<and> compute_fourier_matrix n ! i ! j =
             complex_of_real (1 / sqrt (real_of_int n))
               * exp (\<i> * complex_of_real (2 * pi * real i * real j / real_of_int n))
         \<and> hamiltonian_PImpulse n ! i = real i"
  using assms
  by (simp add: hamiltonian_P_nth fourier_nth euler_form hamiltonian_PImpulse_def)

theorem momentum_operator_is_F_diag_Finv_witness:
  "hamiltonian_P 2 ! 0 ! 1 =
           (\<Sum>k<2. compute_fourier_matrix 2 ! 0 ! k * of_nat k
                          * cnj (compute_fourier_matrix 2 ! 1 ! k))"
  using momentum_operator_is_F_diag_Finv [of 2 0 1] by simp


text \<open>
  Claim C3. For every dimension \<open>n \<ge> 2\<close> and every \<open>a\<close>, the diagonal position
  operator has \<open>n\<close> entries and entry \<open>i\<close> is \<open>a * (-(n - 1)/2 + i)\<close>: the scalar \<open>a\<close>
  multiplies the whole bracket, the index term included.
\<close>

theorem Q_diag_scales_whole_expression:
  assumes "2 \<le> n" and "i < nat n"
  shows "length (hamiltonian_Q_diag n a) = nat n
         \<and> hamiltonian_Q_diag n a ! i = a * (- ((real_of_int n - 1) / 2) + real i)
         \<and> hamiltonian_Q_diag n a ! i = - (a * (real_of_int n - 1) / 2) + a * real i"
  using assms by (simp add: hamiltonian_Q_diag_def algebra_simps)

theorem Q_diag_scales_whole_expression_witness:
  "(2::int) \<le> 2 \<and> (1::nat) < nat 2 \<and> hamiltonian_Q_diag 2 3 ! 1 = 3 / 2"
  using Q_diag_scales_whole_expression [of 2 1 3] by simp




text \<open>
  Claim C5. For every \<open>n \<ge> 2\<close> and every \<open>a\<close>, when its allocations succeed the builder
  emits one list of exactly \<open>2 * n * n\<close> numbers, and entry \<open>(i, j)\<close> of \<open>H\<close> has its real
  part at index \<open>2 * (i * n + j)\<close> and its imaginary part at the next index.
\<close>

theorem bang_output_layout:
  assumes "2 \<le> qho_n x" and "mem_ok m"
  shows "\<exists>H out. compute_hamiltonian m x = Inr H
           \<and> qte_quantumho_bang m x = [Outlet_list 0 out]
           \<and> int (length out) = 2 * qho_n x * qho_n x
           \<and> (\<forall>i<nat (qho_n x). \<forall>j<nat (qho_n x).
                 out ! (2 * (i * nat (qho_n x) + j)) = Re (H ! i ! j)
               \<and> out ! (2 * (i * nat (qho_n x) + j) + 1) = Im (H ! i ! j))"
proof -
  let ?n = "qho_n x"
  let ?N = "nat ?n"
  let ?buf = "map (fresh_atoms m) [0..<nat (2 * ?n * ?n)]"
  have n0: "0 \<le> ?n" using assms(1) by simp
  obtain H where H: "compute_hamiltonian m x = Inr H"
    using compute_hamiltonian_ok [OF assms(2)] by blast
  let ?out = "flatten_matrix H ?n ?buf"
  have B: "qte_quantumho_bang m x = [Outlet_list 0 ?out]"
    by (rule bang_ok [OF assms(2) n0 H])
  have len: "length ?buf = 2 * (?N * ?N)" using n0 by (simp add: nat_2nn)
  have "length ?out = nat (2 * ?n * ?n)"
    using flatten_matrix_cells(1) [OF len, of H] by simp
  then have L: "int (length ?out) = 2 * ?n * ?n" using n0 by simp
  have E: "?out ! (2 * (i * ?N + j)) = Re (H ! i ! j)
         \<and> ?out ! (2 * (i * ?N + j) + 1) = Im (H ! i ! j)" if "i < ?N" "j < ?N" for i j
    using flatten_matrix_entry [OF len that, of H] by simp
  show ?thesis using H B L E by blast
qed


theorem bang_output_layout_witness:
  "2 \<le> qho_n \<lparr>qho_n = 2, qho_a = 1\<rparr> \<and> mem_ok plenty
   \<and> (\<exists>H out. compute_hamiltonian plenty \<lparr>qho_n = 2, qho_a = 1\<rparr> = Inr H
         \<and> qte_quantumho_bang plenty \<lparr>qho_n = 2, qho_a = 1\<rparr> = [Outlet_list 0 out]
         \<and> length out = 8 \<and> out ! 4 = Re (H ! 1 ! 0) \<and> out ! 5 = Im (H ! 1 ! 0))"
proof -
  have ok: "mem_ok plenty" by (simp add: mem_ok_def plenty_def)
  obtain H out where *: "compute_hamiltonian plenty \<lparr>qho_n = 2, qho_a = 1\<rparr> = Inr H"
      "qte_quantumho_bang plenty \<lparr>qho_n = 2, qho_a = 1\<rparr> = [Outlet_list 0 out]"
      "int (length out) = 8"
      "\<forall>i<2. \<forall>j<2. out ! (2 * (i * 2 + j)) = Re (H ! i ! j)
                   \<and> out ! (2 * (i * 2 + j) + 1) = Im (H ! i ! j)"
    using bang_output_layout [of "\<lparr>qho_n = 2, qho_a = 1\<rparr>" plenty] ok by auto
  from *(4) have "out ! (2 * (1 * 2 + 0)) = Re (H ! 1 ! 0) \<and> out ! (2 * (1 * 2 + 0) + 1) = Im (H ! 1 ! 0)"
    by (metis one_less_numeral_iff semiring_norm(76) zero_less_numeral)
  then have "out ! 4 = Re (H ! 1 ! 0)" "out ! 5 = Im (H ! 1 ! 0)" by simp_all
  with * ok show ?thesis by simp
qed




section \<open>Properties of the Hermitian eigensolver\<close>




text \<open>
  Claim C7. Decompose on a solver with no stored matrix reports "No matrix stored", emits
  no list on either outlet and changes neither the object nor the store; a new solver
  and a solver whose dimension has just been changed are in that state.
\<close>

theorem decompose_on_empty:
  "(eig_matrix x = None \<longrightarrow>
      qte_eigencalc_bang zheev m x h
        = (x, h, [Error ''No matrix stored. Use a list message first.'' []]))
   \<and> eig_matrix (qte_eigencalc_new argv) = None
   \<and> (0 < n \<and> n \<noteq> eig_n x \<longrightarrow> eig_matrix (fst (qte_eigencalc_dim x h n)) = None)"
  by (auto simp: qte_eigencalc_bang_def qte_eigencalc_new_def qte_eigencalc_dim_def Let_def
      split: option.splits)

theorem decompose_on_empty_witness:
  "eig_matrix (qte_eigencalc_new []) = None
   \<and> qte_eigencalc_bang zheev_stub granted (qte_eigencalc_new []) empty_store
       = (qte_eigencalc_new [], empty_store,
          [Error ''No matrix stored. Use a list message first.'' []])
   \<and> eig_matrix (fst (qte_eigencalc_dim \<lparr>eig_n = 3, eig_matrix = Some 0\<rparr>
        \<lparr>cells = [0 \<mapsto> replicate 9 0], brk = 1\<rparr> 2)) = None"
  using decompose_on_empty [of "qte_eigencalc_new []" zheev_stub granted empty_store "[]" 1]
    decompose_on_empty [of "\<lparr>eig_n = 3, eig_matrix = Some 0\<rparr>" zheev_stub granted
      "\<lparr>cells = [0 \<mapsto> replicate 9 0], brk = 1\<rparr>" "[]" 2]
  by simp

text \<open>
  Claim C8. From a state of the solver that holds the matrix \<open>M\<close>, two decompositions in
  a row (granted the same requests, whatever fresh memory holds) emit the same events,
  and after each of them the object is unchanged and the stored matrix is still \<open>M\<close>.
\<close>

theorem decompose_idempotent:
  assumes "solver_inv x h" and "stored_matrix x h = Some M" and "same_grants m1 m2"
    and "qte_eigencalc_bang zheev m1 x h = (x1, h1, ev1)"
    and "qte_eigencalc_bang zheev m2 x1 h1 = (x2, h2, ev2)"
  shows "ev1 = ev2 \<and> x1 = x \<and> stored_matrix x1 h1 = Some M
         \<and> x2 = x \<and> stored_matrix x2 h2 = Some M \<and> solver_inv x2 h2"
proof -
  from assms(2) obtain p where p: "eig_matrix x = Some p" "cells h p = Some M"
    by (auto simp: stored_matrix_def split: option.splits)
  from assms(1) p have b: "p < brk h" and len: "length M = nat (eig_n x * eig_n x)"
    and pos: "0 < eig_n x"
    by (simp_all add: solver_inv_def)
  have x1: "x1 = x" using bang_object_unchanged [of zheev m1 x h] assms(4) by simp
  have h1: "cells h1 p = Some M" "brk h \<le> brk h1"
    using bang_store [OF p(1) b, of zheev m1] assms(4) p(2) by simp_all
  then have b1: "p < brk h1" using b by simp
  have x2: "x2 = x" using bang_object_unchanged [of zheev m2 x1 h1] assms(5) x1 by simp
  have h2: "cells h2 p = Some M" "brk h1 \<le> brk h2"
    using bang_store [OF p(1) b1, of zheev m2] assms(5) h1(1) x1 by simp_all
  have ev: "ev1 = ev2"
    using bang_events_same [OF p(1) b p(2) b1 h1(1) len pos assms(3), of zheev] assms(4,5) x1
    by simp
  have inv2: "solver_inv x2 h2"
    using x2 p(1) h2 b1 len pos by (simp add: solver_inv_def)
  show ?thesis using ev x1 x2 h1(1) h2(1) p(1) inv2 by (simp add: stored_matrix_def)
qed

theorem decompose_idempotent_witness:
  "solver_inv \<lparr>eig_n = 1, eig_matrix = Some 0\<rparr> \<lparr>cells = [0 \<mapsto> [1]], brk = 1\<rparr>
   \<and> stored_matrix \<lparr>eig_n = 1, eig_matrix = Some 0\<rparr> \<lparr>cells = [0 \<mapsto> [1]], brk = 1\<rparr> = Some [1]
   \<and> same_grants granted (granted\<lparr>fresh_real := (\<lambda>i. 7)\<rparr>)
   \<and> qte_eigencalc_bang zheev_stub granted \<lparr>eig_n = 1, eig_matrix = Some 0\<rparr>
        \<lparr>cells = [0 \<mapsto> [1]], brk = 1\<rparr>
      = (\<lparr>eig_n = 1, eig_matrix = Some 0\<rparr>, \<lparr>cells = [0 \<mapsto> [1]], brk = 2\<rparr>,
         [Outlet_list 0 [0], Outlet_list 1 [1, 0],
          Post ''Eigen-decomposition completed successfully.'' []])
   \<and> snd (snd (qte_eigencalc_bang zheev_stub (granted\<lparr>fresh_real := (\<lambda>i. 7)\<rparr>)
        \<lparr>eig_n = 1, eig_matrix = Some 0\<rparr> \<lparr>cells = [0 \<mapsto> [1]], brk = 2\<rparr>))
      = [Outlet_list 0 [0], Outlet_list 1 [1, 0],
         Post ''Eigen-decomposition completed successfully.'' []]
   \<and> stored_matrix
        (fst (qte_eigencalc_bang zheev_stub (granted\<lparr>fresh_real := (\<lambda>i. 7)\<rparr>)
           \<lparr>eig_n = 1, eig_matrix = Some 0\<rparr> \<lparr>cells = [0 \<mapsto> [1]], brk = 2\<rparr>))
        (fst (snd (qte_eigencalc_bang zheev_stub (granted\<lparr>fresh_real := (\<lambda>i. 7)\<rparr>)
           \<lparr>eig_n = 1, eig_matrix = Some 0\<rparr> \<lparr>cells = [0 \<mapsto> [1]], brk = 2\<rparr>))) = Some [1]"
proof -
  let ?x = "\<lparr>eig_n = 1, eig_matrix = Some 0\<rparr>"
  let ?h = "\<lparr>cells = [0 \<mapsto> [1]], brk = 1\<rparr>"
  let ?h1 = "\<lparr>cells = [0 \<mapsto> [1]], brk = 2\<rparr>"
  let ?m2 = "granted\<lparr>fresh_real := (\<lambda>i. 7)\<rparr>"
  let ?ev = "[Outlet_list 0 [0], Outlet_list 1 [1, 0],
              Post ''Eigen-decomposition completed successfully.'' []]"
  let ?r2 = "qte_eigencalc_bang zheev_stub ?m2 ?x ?h1"
  have inv: "solver_inv ?x ?h" by (simp add: solver_inv_def)
  have st: "stored_matrix ?x ?h = Some [1]" by (simp add: stored_matrix_def)
  have sg: "same_grants granted ?m2" by (simp add: same_grants_def)
  have r1: "qte_eigencalc_bang zheev_stub granted ?x ?h = (?x, ?h1, ?ev)"
    using bang_evaluated [of 0] by (simp add: numeral_2_eq_2)
  have r2: "?r2 = (fst ?r2, fst (snd ?r2), snd (snd ?r2))" by simp
  note T = decompose_idempotent [OF inv st sg r1 r2]
  from T have "?ev = snd (snd ?r2)" by (rule conjunct1)
  then have c1: "snd (snd ?r2) = ?ev" by (rule sym)
  from T have c2: "stored_matrix (fst ?r2) (fst (snd ?r2)) = Some [1]" by blast
  show ?thesis
    by (rule conjI [OF inv conjI [OF st conjI [OF sg conjI [OF r1 conjI [OF c1 c2]]]]])
qed

text \<open>
  Claim C10. A \<^verbatim>\<open>dim\<close> message with the current dimension changes nothing (and posts
  nothing); a non-positive argument is rejected with an error and changes nothing; only
  a positive argument other than the current dimension sets the dimension and discards
  the stored matrix.
\<close>

theorem dim_message:
  "(eig_n x = n \<longrightarrow> fst (qte_eigencalc_dim x h n) = x \<and> fst (snd (qte_eigencalc_dim x h n)) = h)
   \<and> (eig_n x = n \<and> 0 < n \<longrightarrow> qte_eigencalc_dim x h n = (x, h, []))
   \<and> (n \<le> 0 \<longrightarrow> qte_eigencalc_dim x h n = (x, h, [Error ''dim must be > 0'' []]))
   \<and> (0 < n \<and> n \<noteq> eig_n x \<longrightarrow>
        eig_n (fst (qte_eigencalc_dim x h n)) = n
        \<and> eig_matrix (fst (qte_eigencalc_dim x h n)) = None
        \<and> (\<forall>p. eig_matrix x = Some p \<longrightarrow> cells (fst (snd (qte_eigencalc_dim x h n))) p = None)
        \<and> snd (snd (qte_eigencalc_dim x h n)) = [Post ''Dimension set to %ld'' [n]])
   \<and> (stored_matrix (fst (qte_eigencalc_dim x h n)) (fst (snd (qte_eigencalc_dim x h n)))
          \<noteq> stored_matrix x h \<longrightarrow> 0 < n \<and> n \<noteq> eig_n x)"
  by (auto simp: qte_eigencalc_dim_def free_complex_def stored_matrix_def Let_def
      split: option.splits)

theorem dim_message_witness:
  "qte_eigencalc_dim \<lparr>eig_n = 3, eig_matrix = Some 0\<rparr> \<lparr>cells = [0 \<mapsto> replicate 9 0], brk = 1\<rparr> 3
     = (\<lparr>eig_n = 3, eig_matrix = Some 0\<rparr>, \<lparr>cells = [0 \<mapsto> replicate 9 0], brk = 1\<rparr>, [])
   \<and> qte_eigencalc_dim \<lparr>eig_n = 3, eig_matrix = Some 0\<rparr> \<lparr>cells = [0 \<mapsto> replicate 9 0], brk = 1\<rparr> 0
     = (\<lparr>eig_n = 3, eig_matrix = Some 0\<rparr>, \<lparr>cells = [0 \<mapsto> replicate 9 0], brk = 1\<rparr>,
        [Error ''dim must be > 0'' []])
   \<and> eig_matrix (fst (qte_eigencalc_dim \<lparr>eig_n = 3, eig_matrix = Some 0\<rparr>
        \<lparr>cells = [0 \<mapsto> replicate 9 0], brk = 1\<rparr> 4)) = None"
  using dim_message [of "\<lparr>eig_n = 3, eig_matrix = Some 0\<rparr>" 3 "\<lparr>cells = [0 \<mapsto> replicate 9 0], brk = 1\<rparr>"]
    dim_message [of "\<lparr>eig_n = 3, eig_matrix = Some 0\<rparr>" 0 "\<lparr>cells = [0 \<mapsto> replicate 9 0], brk = 1\<rparr>"]
    dim_message [of "\<lparr>eig_n = 3, eig_matrix = Some 0\<rparr>" 4 "\<lparr>cells = [0 \<mapsto> replicate 9 0], brk = 1\<rparr>"]
  by simp

end
